theory Spec2Isabelle
  imports Complex_Main
begin

text \<open>
  The generator \<open>generate_index.py\<close> writes one HTML page whose script prices and
  searches a catalogue in the browser. This theory models that script: the rounding rule,
  the buckets and discount rules of the configuration, the text normalisation, the fuzzy
  filter, the ranking and the list that \<open>render\<close> builds for a section.
\<close>

section \<open>JavaScript numbers\<close>

text \<open>
  The page script computes with JavaScript numbers. A finite number is modelled by the
  real it denotes (rounding error and overflow of IEEE doubles are not part of the
  model, and the sign of zero is not tracked); the three special values are kept as
  constructors of their own, because the script tests for them (\<open>isFinite\<close>,
  \<open>isNaN\<close>) and because bucket bounds and rule fields can hold them.
\<close>

datatype jsnum = Fin real | PInf | NInf | NaN

fun isFinite :: "jsnum \<Rightarrow> bool" where
  "isFinite (Fin x) = True"
| "isFinite PInf = False"
| "isFinite NInf = False"
| "isFinite NaN = False"


text \<open>\<open>Math.round\<close> rounds to the nearest integer, a tie towards plus infinity.\<close>

definition Math_round :: "real \<Rightarrow> int" where
  "Math_round y = \<lfloor>y + 1 / 2\<rfloor>"

text \<open>The operator \<open>%\<close> on integers: the remainder takes the sign of the dividend.\<close>

definition js_rem :: "int \<Rightarrow> int \<Rightarrow> int" where
  "js_rem a b = sgn a * (\<bar>a\<bar> mod \<bar>b\<bar>)"

section \<open>The rounding rule\<close>

text \<open>
  \<open>roundPrice\<close> returns the empty string for a number that is not finite and an
  integer otherwise.
\<close>

datatype price = Amount int | Blank

definition roundPrice :: "jsnum \<Rightarrow> price" where
  "roundPrice n =
     (case n of
        Fin x \<Rightarrow>
          (let p = Math_round (x / 10) * 10 in
           if p > 340 then
             (let lastd = js_rem (js_rem p 100 + 100) 100 in
              if lastd = 10 then Amount (p - 10)
              else if lastd = 90 then Amount (p + 10)
              else Amount p)
           else Amount p)
      | _ \<Rightarrow> Blank)"


subsection \<open>The rounding rule in the words of its description\<close>

text \<open>
  \<open>r\<close> is \<open>x\<close> rounded to the nearest multiple of 10, a tie going up: \<open>r\<close> is a
  multiple of 10 at distance at most 5 from \<open>x\<close>, and the distance 5 is allowed only
  from below.
\<close>

definition rounds_half_up_to10 :: "real \<Rightarrow> int \<Rightarrow> bool" where
  "rounds_half_up_to10 x r = (10 dvd r \<and> of_int r - 5 \<le> x \<and> x < of_int r + 5)"

text \<open>The adjustment above 340: an ending 10 goes down to 00, an ending 90 up to 00.\<close>

definition avoid_10_90 :: "int \<Rightarrow> int" where
  "avoid_10_90 r =
     (if 340 < r \<and> r mod 100 = 10 then r - 10
      else if 340 < r \<and> r mod 100 = 90 then r + 10
      else r)"

section \<open>Strings\<close>

text \<open>
  A JavaScript string is a sequence of UTF-16 code units, here a list of integers.
  \<open>js\<close> writes a string of this kind from an ASCII literal.
\<close>

type_synonym jsstring = "int list"

definition js :: "string \<Rightarrow> jsstring" where
  "js s = map of_char s"

section \<open>Arithmetic and comparison on JavaScript numbers\<close>

fun js_le :: "jsnum \<Rightarrow> jsnum \<Rightarrow> bool" where
  "js_le NaN b = False"
| "js_le a NaN = False"
| "js_le (Fin x) (Fin y) = (x \<le> y)"
| "js_le NInf b = True"
| "js_le a PInf = True"
| "js_le a b = False"

definition js_ge :: "jsnum \<Rightarrow> jsnum \<Rightarrow> bool" where
  "js_ge a b = js_le b a"

fun js_lt :: "jsnum \<Rightarrow> jsnum \<Rightarrow> bool" where
  "js_lt NaN b = False"
| "js_lt a NaN = False"
| "js_lt (Fin x) (Fin y) = (x < y)"
| "js_lt NInf NInf = False"
| "js_lt NInf b = True"
| "js_lt PInf b = False"
| "js_lt a PInf = True"
| "js_lt a b = False"

fun js_sub :: "jsnum \<Rightarrow> jsnum \<Rightarrow> jsnum" where
  "js_sub NaN b = NaN"
| "js_sub a NaN = NaN"
| "js_sub (Fin x) (Fin y) = Fin (x - y)"
| "js_sub PInf PInf = NaN"
| "js_sub NInf NInf = NaN"
| "js_sub PInf b = PInf"
| "js_sub NInf b = NInf"
| "js_sub a PInf = NInf"
| "js_sub a NInf = PInf"

text \<open>The sign of an infinite product; a zero factor gives \<open>NaN\<close>.\<close>

definition inf_times :: "bool \<Rightarrow> real \<Rightarrow> jsnum" where
  "inf_times positive x =
     (if x = 0 then NaN else if (0 < x) = positive then PInf else NInf)"

fun js_mul :: "jsnum \<Rightarrow> jsnum \<Rightarrow> jsnum" where
  "js_mul NaN b = NaN"
| "js_mul a NaN = NaN"
| "js_mul (Fin x) (Fin y) = Fin (x * y)"
| "js_mul (Fin x) PInf = inf_times True x"
| "js_mul (Fin x) NInf = inf_times False x"
| "js_mul PInf (Fin y) = inf_times True y"
| "js_mul NInf (Fin y) = inf_times False y"
| "js_mul PInf PInf = PInf"
| "js_mul NInf NInf = PInf"
| "js_mul PInf NInf = NInf"
| "js_mul NInf PInf = NInf"

text \<open>
  Division by a finite number that is not zero, the only division the pricing code
  makes (\<open>pct/100\<close>); a zero divisor is treated as positive zero.
\<close>

fun js_div :: "jsnum \<Rightarrow> jsnum \<Rightarrow> jsnum" where
  "js_div NaN b = NaN"
| "js_div a NaN = NaN"
| "js_div (Fin x) (Fin y) =
     (if y = 0 then (if x = 0 then NaN else if 0 < x then PInf else NInf) else Fin (x / y))"
| "js_div (Fin x) b = Fin 0"
| "js_div PInf (Fin y) = (if 0 \<le> y then PInf else NInf)"
| "js_div NInf (Fin y) = (if 0 \<le> y then NInf else PInf)"
| "js_div a b = NaN"

section \<open>Discount rules and the configuration\<close>

text \<open>
  A rule as it is stored: \<open>null\<close> or absent, a bare number, an object with the fields
  \<open>pct\<close> and \<open>flat\<close>, or any other value. A field of the object is absent or \<open>null\<close>,
  the empty string, or any other value \<open>v\<close>, kept as the number \<open>Number(v)\<close>.
\<close>

datatype field = Unset | EmptyStr | Val jsnum

datatype rulesrc = RNull | RNum jsnum | RObj field field | ROther

record rule =
  pct :: "jsnum option"
  flat :: "jsnum option"

fun field_value :: "field \<Rightarrow> jsnum option" where
  "field_value EmptyStr = None"
| "field_value Unset = None"
| "field_value (Val n) = Some n"

fun asRuleObj :: "rulesrc \<Rightarrow> rule" where
  "asRuleObj RNull = \<lparr>pct = None, flat = None\<rparr>"
| "asRuleObj (RNum v) = \<lparr>pct = Some v, flat = None\<rparr>"
| "asRuleObj (RObj p f) = \<lparr>pct = field_value p, flat = field_value f\<rparr>"
| "asRuleObj ROther = \<lparr>pct = None, flat = None\<rparr>"

text \<open>A bucket as the configuration lists it: label, low and high bound.\<close>

type_synonym bucket_src = "jsstring \<times> jsnum \<times> jsnum"

record bucket =
  label :: jsstring
  lo :: jsnum
  hi :: jsnum

type_synonym rules = "jsstring \<rightharpoonup> rulesrc"

record config =
  defaults :: rules
  perSheet :: "jsstring \<rightharpoonup> rules"
  buckets :: "bucket_src list"

text \<open>
  The stored document \<open>engineConfigV1\<close>: absent, not parsable, or an object in which
  each of the three fields may be missing.
\<close>

record raw_config =
  raw_defaults :: "rules option"
  raw_perSheet :: "(jsstring \<rightharpoonup> rules) option"
  raw_buckets :: "bucket_src list option"

datatype stored = NoItem | Unparsable | Parsed raw_config

text \<open>
  What the generator writes into the page (\<open>DEFAULT_RULES\<close>, \<open>DEFAULT_BUCKETS\<close>) and
  what the browser holds (\<open>localStorage\<close>).
\<close>

record page =
  DEFAULT_RULES :: "jsstring \<rightharpoonup> jsnum"
  DEFAULT_BUCKETS :: "bucket_src list"
  engineConfigV1 :: stored

definition legacy_rules :: "page \<Rightarrow> rules" where
  "legacy_rules pg = (\<lambda>l. map_option RNum (DEFAULT_RULES pg l))"

definition default_config :: "page \<Rightarrow> config" where
  "default_config pg =
     \<lparr>defaults = legacy_rules pg, perSheet = Map.empty, buckets = DEFAULT_BUCKETS pg\<rparr>"

fun getEngineConfig :: "page \<Rightarrow> config" where
  "getEngineConfig pg =
     (case engineConfigV1 pg of
        NoItem \<Rightarrow> default_config pg
      | Unparsable \<Rightarrow> default_config pg
      | Parsed cfg \<Rightarrow>
          \<lparr>defaults = (case raw_defaults cfg of None \<Rightarrow> legacy_rules pg | Some d \<Rightarrow> d),
           perSheet = (case raw_perSheet cfg of None \<Rightarrow> Map.empty | Some s \<Rightarrow> s),
           buckets = (case raw_buckets cfg of None \<Rightarrow> DEFAULT_BUCKETS pg | Some b \<Rightarrow> b)\<rparr>)"

text \<open>Reading a property: a missing key reads as \<open>undefined\<close>, which is \<open>== null\<close>.\<close>

definition get_prop :: "rules \<Rightarrow> jsstring \<Rightarrow> rulesrc" where
  "get_prop m k = (case m k of None \<Rightarrow> RNull | Some v \<Rightarrow> v)"

definition resolveRule :: "page \<Rightarrow> jsstring \<Rightarrow> jsstring \<Rightarrow> rule" where
  "resolveRule pg lbl sheetName =
     (let cfg = getEngineConfig pg;
          page = (case perSheet cfg sheetName of Some m \<Rightarrow> m | None \<Rightarrow> Map.empty);
          vPage = get_prop page lbl;
          vDef = get_prop (defaults cfg) lbl;
          rulePage = asRuleObj vPage;
          ruleDef = asRuleObj vDef
      in if pct rulePage = None \<and> flat rulePage = None \<and> pct ruleDef = None \<and> flat ruleDef = None
         then (let num = (case DEFAULT_RULES pg lbl of Some n \<Rightarrow> n | None \<Rightarrow> Fin 0)
               in \<lparr>pct = Some num, flat = None\<rparr>)
         else \<lparr>pct = (if pct rulePage \<noteq> None then pct rulePage else pct ruleDef),
               flat = (if flat rulePage \<noteq> None then flat rulePage else flat ruleDef)\<rparr>)"

section \<open>Buckets and the displayed price\<close>

definition activeBuckets :: "page \<Rightarrow> bucket list" where
  "activeBuckets pg =
     map (\<lambda>(l, low, high). \<lparr>label = l, lo = low, hi = (if high = PInf then PInf else high)\<rparr>)
       (buckets (getEngineConfig pg))"

text \<open>\<open>Number(v || 0)\<close> for a rule field: \<open>null\<close>, 0 and \<open>NaN\<close> are falsy.\<close>

fun or_zero :: "jsnum option \<Rightarrow> jsnum" where
  "or_zero None = Fin 0"
| "or_zero (Some NaN) = Fin 0"
| "or_zero (Some (Fin x)) = Fin x"
| "or_zero (Some v) = v"

definition in_bucket :: "jsnum \<Rightarrow> bucket \<Rightarrow> bool" where
  "in_bucket base b = (js_ge base (lo b) \<and> js_le base (hi b))"

text \<open>The body of the loop of \<open>finalPriceFor\<close> for the bucket that matched.\<close>

definition discounted :: "page \<Rightarrow> jsstring \<Rightarrow> jsnum \<Rightarrow> bucket \<Rightarrow> jsnum" where
  "discounted pg sheetName base b =
     (let rl = resolveRule pg (label b) sheetName;
          pc = or_zero (pct rl);
          fl = or_zero (flat rl);
          p = js_mul base (js_sub (Fin 1) (js_div pc (Fin 100)));
          p = js_sub p fl
      in if js_lt p (Fin 0) then Fin 0 else p)"

fun scan_buckets :: "page \<Rightarrow> jsstring \<Rightarrow> jsnum \<Rightarrow> bucket list \<Rightarrow> price" where
  "scan_buckets pg sheetName base [] = roundPrice base"
| "scan_buckets pg sheetName base (b # bs) =
     (if in_bucket base b then roundPrice (discounted pg sheetName base b)
      else scan_buckets pg sheetName base bs)"

definition finalPriceFor :: "page \<Rightarrow> jsstring \<Rightarrow> jsnum \<Rightarrow> price" where
  "finalPriceFor pg sheetName base = scan_buckets pg sheetName base (activeBuckets pg)"

text \<open>The constants of the generator.\<close>

definition generator_rules :: "jsstring \<rightharpoonup> jsnum" where
  "generator_rules =
     [js ''1-100'' \<mapsto> Fin 30, js ''101-220'' \<mapsto> Fin 20, js ''221-300'' \<mapsto> Fin 15,
      js ''301-469'' \<mapsto> Fin 13, js ''470+'' \<mapsto> Fin 10]"

definition generator_buckets :: "bucket_src list" where
  "generator_buckets =
     [(js ''1-100'', Fin 1, Fin 100), (js ''101-220'', Fin 101, Fin 220),
      (js ''221-300'', Fin 221, Fin 300), (js ''301-469'', Fin 301, Fin 469),
      (js ''470+'', Fin 470, PInf)]"


subsection \<open>Bucket and rule resolution in the words of their description\<close>

text \<open>The first bucket, in listed order, whose range \<open>[low, high]\<close> contains the price.\<close>

definition resolveBucket :: "jsnum \<Rightarrow> bucket list \<Rightarrow> bucket option" where
  "resolveBucket price bs = find (\<lambda>b. js_le (lo b) price \<and> js_le price (hi b)) bs"





text \<open>A displayed price below zero.\<close>

fun negative_price :: "price \<Rightarrow> bool" where
  "negative_price (Amount p) = (p < 0)"
| "negative_price Blank = False"

text \<open>Both fields of the rule that a bucket resolves to are finite where it is applied.\<close>

definition finite_rule :: "page \<Rightarrow> jsstring \<Rightarrow> bucket \<Rightarrow> bool" where
  "finite_rule pg sheetName b =
     (let rl = resolveRule pg (label b) sheetName
      in isFinite (or_zero (pct rl)) \<and> isFinite (or_zero (flat rl)))"

subsection \<open>Example pages\<close>

text \<open>Two buckets \<open>A\<close> and \<open>B\<close>, with 50 percent off in \<open>A\<close> and 10 percent in \<open>B\<close>.\<close>

definition two_buckets :: "bucket_src list" where
  "two_buckets = [(js ''A'', Fin 1, Fin 100), (js ''B'', Fin 101, Fin 220)]"

definition two_bucket_page :: page where
  "two_bucket_page =
     \<lparr>DEFAULT_RULES = generator_rules, DEFAULT_BUCKETS = generator_buckets,
      engineConfigV1 = Parsed
        \<lparr>raw_defaults = Some [js ''A'' \<mapsto> RObj (Val (Fin 50)) Unset, js ''B'' \<mapsto> RNum (Fin 10)],
         raw_perSheet = None,
         raw_buckets = Some two_buckets\<rparr>\<rparr>"

text \<open>Two buckets that overlap: every price of the second is also in the first.\<close>

definition overlap_page :: page where
  "overlap_page =
     \<lparr>DEFAULT_RULES = generator_rules, DEFAULT_BUCKETS = generator_buckets,
      engineConfigV1 = Parsed
        \<lparr>raw_defaults = Some [js ''wide'' \<mapsto> RNum (Fin 50), js ''narrow'' \<mapsto> RNum (Fin 10)],
         raw_perSheet = None,
         raw_buckets = Some [(js ''wide'', Fin 1, PInf), (js ''narrow'', Fin 100, Fin 200)]\<rparr>\<rparr>"


text \<open>A discount of more than the whole price in the first bucket.\<close>

definition steep_page :: page where
  "steep_page =
     \<lparr>DEFAULT_RULES = generator_rules, DEFAULT_BUCKETS = generator_buckets,
      engineConfigV1 = Parsed
        \<lparr>raw_defaults = Some [js ''1-100'' \<mapsto> RObj (Val (Fin 150)) (Val (Fin 20))],
         raw_perSheet = None, raw_buckets = None\<rparr>\<rparr>"

section \<open>Text\<close>

subsection \<open>Character classes and string primitives\<close>

definition is_digit :: "int \<Rightarrow> bool" where
  "is_digit c = (48 \<le> c \<and> c \<le> 57)"

definition is_lower :: "int \<Rightarrow> bool" where
  "is_lower c = (97 \<le> c \<and> c \<le> 122)"

text \<open>The class \<open>\w\<close>: letters, digits and the underscore.\<close>

definition is_word :: "int \<Rightarrow> bool" where
  "is_word c = (is_digit c \<or> is_lower c \<or> (65 \<le> c \<and> c \<le> 90) \<or> c = 95)"

text \<open>The class \<open>\s\<close>, which is also what \<open>trim\<close> removes.\<close>

definition is_space :: "int \<Rightarrow> bool" where
  "is_space c =
     (c \<in> set [9, 10, 11, 12, 13, 32, 160, 5760, 8232, 8233, 8239, 8287, 12288, 65279]
      \<or> (8192 \<le> c \<and> c \<le> 8202))"

text \<open>
  \<open>toLowerCase\<close>: the ASCII capitals, and the two code points outside ASCII whose lower
  case has an ASCII letter (the Kelvin sign and the dotted capital I). Every other unit
  is left as it is; JavaScript maps a cased letter outside ASCII to units outside ASCII.
\<close>

definition lower_unit :: "int \<Rightarrow> jsstring" where
  "lower_unit c =
     (if 65 \<le> c \<and> c \<le> 90 then [c + 32]
      else if c = 8490 then [107]
      else if c = 304 then [105, 775]
      else [c])"

definition toLowerCase :: "jsstring \<Rightarrow> jsstring" where
  "toLowerCase s = concat (map lower_unit s)"

definition trim :: "jsstring \<Rightarrow> jsstring" where
  "trim s = rev (dropWhile is_space (rev (dropWhile is_space s)))"

fun startsWith :: "'a list \<Rightarrow> 'a list \<Rightarrow> bool" where
  "startsWith s [] = True"
| "startsWith [] (p # ps) = False"
| "startsWith (c # cs) (p # ps) = (c = p \<and> startsWith cs ps)"

fun str_includes :: "'a list \<Rightarrow> 'a list \<Rightarrow> bool" where
  "str_includes [] t = (t = [])"
| "str_includes (c # cs) t = (startsWith (c # cs) t \<or> str_includes cs t)"

text \<open>\<open>s.split(' ')\<close>, and the same followed by \<open>filter(Boolean)\<close>.\<close>

fun split_sp :: "jsstring \<Rightarrow> jsstring list" where
  "split_sp [] = [[]]"
| "split_sp (c # cs) =
     (if c = 32 then [] # split_sp cs
      else (case split_sp cs of w # ws \<Rightarrow> (c # w) # ws | [] \<Rightarrow> [[c]]))"

definition tokens_of :: "jsstring \<Rightarrow> jsstring list" where
  "tokens_of s = filter (\<lambda>t. t \<noteq> []) (split_sp s)"

subsection \<open>Global replacement\<close>

text \<open>
  \<open>s.replace(/re/g, ...)\<close>, for a pattern given by its matcher: at a position, with the
  unit before it (for \<open>\b\<close>) and the text from it on, the matcher returns the replacement
  and the length of the match. The scan goes left to right and resumes after a match;
  \<open>skip\<close> counts the units of the current match still to pass.
\<close>

type_synonym matcher = "int option \<Rightarrow> jsstring \<Rightarrow> (jsstring \<times> nat) option"

fun replace_from :: "matcher \<Rightarrow> int option \<Rightarrow> nat \<Rightarrow> jsstring \<Rightarrow> jsstring" where
  "replace_from m prev skip [] = []"
| "replace_from m prev (Suc k) (c # cs) = replace_from m (Some c) k cs"
| "replace_from m prev 0 (c # cs) =
     (case m prev (c # cs) of
        None \<Rightarrow> c # replace_from m (Some c) 0 cs
      | Some (rep, n) \<Rightarrow>
          (if n = 0 then rep @ c # replace_from m (Some c) 0 cs
           else rep @ replace_from m (Some c) (n - 1) cs))"

definition replace_all :: "matcher \<Rightarrow> jsstring \<Rightarrow> jsstring" where
  "replace_all m s = replace_from m None 0 s"

text \<open>Every maximal run of units of a class becomes one space (\<open>/[class]+/g\<close>).\<close>

fun squeeze :: "(int \<Rightarrow> bool) \<Rightarrow> bool \<Rightarrow> jsstring \<Rightarrow> jsstring" where
  "squeeze P in_run [] = []"
| "squeeze P in_run (c # cs) =
     (if P c then (if in_run then squeeze P True cs else 32 # squeeze P True cs)
      else c # squeeze P False cs)"

text \<open>\<open>\b\<close> before a word unit, and \<open>\b\<close> after one.\<close>

definition word_before :: "int option \<Rightarrow> bool" where
  "word_before prev = (case prev of None \<Rightarrow> False | Some c \<Rightarrow> is_word c)"

definition boundary_after :: "jsstring \<Rightarrow> bool" where
  "boundary_after rest = (case rest of [] \<Rightarrow> True | c # _ \<Rightarrow> \<not> is_word c)"

subsection \<open>\<open>normText\<close>\<close>

text \<open>\<open>/\b(\d+)\s*-\s*inch\b/\<close>, replaced by \<open>$1 inch\<close>.\<close>

definition match_num_dash_inch :: matcher where
  "match_num_dash_inch prev s =
     (let ds = takeWhile is_digit s;
          r1 = dropWhile is_space (dropWhile is_digit s)
      in if word_before prev \<or> ds = [] then None
         else (case r1 of
                 [] \<Rightarrow> None
               | c # r2 \<Rightarrow>
                   (let r3 = dropWhile is_space r2
                    in if c = 45 \<and> startsWith r3 (js ''inch'') \<and> boundary_after (drop 4 r3)
                       then Some (ds @ js '' inch'', length s - length (drop 4 r3))
                       else None)))"

text \<open>\<open>/\b(\d+)\s*inch(es)?\b/\<close>, replaced by \<open>$1 inch\<close>.\<close>

definition match_num_inch :: matcher where
  "match_num_inch prev s =
     (let ds = takeWhile is_digit s;
          r1 = dropWhile is_space (dropWhile is_digit s);
          r2 = drop 4 r1
      in if word_before prev \<or> ds = [] \<or> \<not> startsWith r1 (js ''inch'') then None
         else if startsWith r2 (js ''es'') \<and> boundary_after (drop 2 r2)
           then Some (ds @ js '' inch'', length s - length (drop 2 r2))
         else if boundary_after r2
           then Some (ds @ js '' inch'', length s - length r2)
         else None)"

text \<open>\<open>/\b([2-6])\s*g\b/\<close>, replaced by \<open>$1g\<close>.\<close>

definition match_gen :: matcher where
  "match_gen prev s =
     (case s of
        [] \<Rightarrow> None
      | d # r1 \<Rightarrow>
          (let r2 = dropWhile is_space r1
           in if word_before prev \<or> \<not> (50 \<le> d \<and> d \<le> 54) then None
              else (case r2 of
                      [] \<Rightarrow> None
                    | g # r3 \<Rightarrow>
                        if g = 103 \<and> boundary_after r3
                        then Some ([d, 103], length s - length r3)
                        else None)))"

definition not_plain :: "int \<Rightarrow> bool" where
  "not_plain c = (\<not> (is_lower c \<or> is_digit c \<or> c = 46 \<or> c = 32))"

definition normText :: "jsstring \<Rightarrow> jsstring" where
  "normText s0 =
     (if s0 = [] then []
      else
        (let s = toLowerCase s0;
             s = concat (map (\<lambda>c. if c = 34 \<or> c = 8221 then js '' inch '' else [c]) s);
             s = replace_all match_num_dash_inch s;
             s = replace_all match_num_inch s;
             s = map (\<lambda>c. if c = 45 then 32 else c) s;
             s = replace_all match_gen s;
             s = squeeze not_plain False s;
             s = trim (squeeze is_space False s)
         in s))"

subsection \<open>\<open>buildSearchBlob\<close>\<close>

text \<open>\<open>/\b(ipad|iphone|apple|samsung)\b/\<close>, replaced by the empty string.\<close>

definition match_brand :: matcher where
  "match_brand prev s =
     (if word_before prev then None
      else (case find (\<lambda>w. startsWith s w)
                   [js ''ipad'', js ''iphone'', js ''apple'', js ''samsung''] of
              None \<Rightarrow> None
            | Some w \<Rightarrow>
                if boundary_after (drop (length w) s) then Some ([], length w) else None))"

definition buildSearchBlob :: "jsstring \<Rightarrow> jsstring \<Rightarrow> jsstring" where
  "buildSearchBlob name sheetName =
     (let base = normText name;
          stripped = trim (squeeze is_space False (replace_all match_brand base));
          sheetPart = (if sheetName \<noteq> [] then 32 # normText sheetName else [])
      in trim (base @ [32] @ stripped @ sheetPart))"

section \<open>Fuzzy search\<close>

subsection \<open>\<open>levenshtein\<close>\<close>

text \<open>
  The inner loop over \<open>j\<close>, for the unit \<open>ai = a[i-1]\<close>: \<open>dp\<close> is the array being
  overwritten, \<open>prev\<close> the value that \<open>dp[j-1]\<close> had in the row before.
\<close>

function lev_inner :: "'a \<Rightarrow> 'a list \<Rightarrow> nat list \<Rightarrow> nat \<Rightarrow> nat \<Rightarrow> nat list" where
  "lev_inner ai b dp prev j =
     (if j \<le> length b then
        (let tmp = dp ! j;
             cost = (if ai = b ! (j - 1) then 0 else 1);
             dp' = dp[j := min (min (dp ! j + 1) (dp ! (j - 1) + 1)) (prev + cost)]
         in lev_inner ai b dp' tmp (j + 1))
      else dp)"
  by pat_completeness auto
termination
  by (relation "measure (\<lambda>(ai, b, dp, prev, j). length b + 1 - j)") auto

text \<open>The outer loop over \<open>i\<close>.\<close>

function lev_outer :: "'a list \<Rightarrow> 'a list \<Rightarrow> nat list \<Rightarrow> nat \<Rightarrow> nat list" where
  "lev_outer a b dp i =
     (if i \<le> length a then
        (let prev = dp ! 0;
             dp0 = dp[0 := i]
         in lev_outer a b (lev_inner (a ! (i - 1)) b dp0 prev 1) (i + 1))
      else dp)"
  by pat_completeness auto
termination
  by (relation "measure (\<lambda>(a, b, dp, i). length a + 1 - i)") auto

definition levenshtein :: "'a list \<Rightarrow> 'a list \<Rightarrow> nat" where
  "levenshtein a b =
     (let m = length a; n = length b
      in if a = b then 0
         else if m = 0 then n
         else if n = 0 then m
         else lev_outer a b [0..<n + 1] 1 ! n)"

subsection \<open>Filter\<close>

definition maxEd :: "jsstring \<Rightarrow> nat" where
  "maxEd t = (if length t \<ge> 6 then 2 else 1)"

text \<open>\<open>Math.abs(h.length - t.length)\<close>.\<close>

definition length_gap :: "jsstring \<Rightarrow> jsstring \<Rightarrow> nat" where
  "length_gap h t = nat \<bar>int (length h) - int (length t)\<bar>"


text \<open>A row of the prepared index.\<close>

record row =
  device :: jsstring
  price_of :: jsnum
  search :: jsstring


subsection \<open>Ranking\<close>

text \<open>\<open>/^\d+(?:\.\d+)?$/\<close> and \<open>parseFloat\<close> of a token that matches it.\<close>

definition is_num_token :: "jsstring \<Rightarrow> bool" where
  "is_num_token t =
     (let ip = takeWhile is_digit t; r = dropWhile is_digit t
      in ip \<noteq> [] \<and>
         (case r of [] \<Rightarrow> True | c # fp \<Rightarrow> c = 46 \<and> fp \<noteq> [] \<and> list_all is_digit fp))"

definition digits_value :: "jsstring \<Rightarrow> nat" where
  "digits_value ds = foldl (\<lambda>acc c. 10 * acc + nat (c - 48)) 0 ds"

definition parseFloat :: "jsstring \<Rightarrow> real" where
  "parseFloat t =
     (let ip = takeWhile is_digit t; r = dropWhile is_digit t
      in case r of
           [] \<Rightarrow> real (digits_value ip)
         | c # fp \<Rightarrow> real (digits_value ip) + real (digits_value fp) / 10 ^ length fp)"

definition extractNums :: "jsstring list \<Rightarrow> real list" where
  "extractNums tokens = map parseFloat (filter is_num_token tokens)"

fun js_add :: "jsnum \<Rightarrow> jsnum \<Rightarrow> jsnum" where
  "js_add NaN b = NaN"
| "js_add a NaN = NaN"
| "js_add (Fin x) (Fin y) = Fin (x + y)"
| "js_add PInf NInf = NaN"
| "js_add NInf PInf = NaN"
| "js_add PInf b = PInf"
| "js_add NInf b = NInf"
| "js_add a b = b"

text \<open>The phrases of two adjacent tokens.\<close>

fun phrases :: "jsstring list \<Rightarrow> jsstring list" where
  "phrases (a # b # rest) = (a @ [32] @ b) # phrases (b # rest)"
| "phrases ts = []"

text \<open>One step of the loop over the haystack tokens, for the query token \<open>tok\<close>.\<close>

definition best_step :: "jsstring \<Rightarrow> real \<Rightarrow> jsstring \<Rightarrow> real" where
  "best_step tok best h =
     (if h = tok then max best 10
      else if startsWith h tok \<or> str_includes h tok then max best 6
      else if length_gap h tok \<le> 3 \<and> levenshtein tok h \<le> maxEd tok then max best 3
      else best)"

definition token_score :: "jsstring list \<Rightarrow> jsstring \<Rightarrow> real" where
  "token_score hayTokens tok = foldl (best_step tok) 0 hayTokens"

text \<open>
  The two nested loops that find the smallest difference; \<open>closer\<close> is the body of the
  inner one.
\<close>

definition closer :: "real \<Rightarrow> jsnum \<Rightarrow> real \<Rightarrow> jsnum" where
  "closer qn bd hn = (let d = Fin \<bar>hn - qn\<bar> in if js_lt d bd then d else bd)"

definition bestDelta :: "real list \<Rightarrow> real list \<Rightarrow> jsnum" where
  "bestDelta qNums hNums = foldl (\<lambda>bd qn. foldl (closer qn) bd hNums) PInf qNums"

definition rankScore :: "row \<Rightarrow> jsstring \<Rightarrow> jsnum" where
  "rankScore r q =
     (let hay = search r; nq = normText q
      in if nq = [] then Fin 0
         else
           (let tokens = tokens_of nq;
                hayTokens = tokens_of hay;
                score = (if str_includes hay nq then 40 else 0);
                score = score + (\<Sum>phrase\<leftarrow>phrases tokens. if str_includes hay phrase then 12 else 0);
                score = score + (\<Sum>tok\<leftarrow>tokens. token_score hayTokens tok);
                qNums = extractNums tokens;
                hNums = extractNums hayTokens;
                score =
                  (if qNums \<noteq> [] \<and> hNums \<noteq> [] then
                     (let bd = bestDelta qNums hNums
                      in if bd = Fin 0 then Fin (score + 25)
                         else if js_le bd (Fin 1) then Fin (score + 10)
                         else if js_le bd (Fin 2) then Fin (score + 5)
                         else js_sub (Fin score) bd)
                   else Fin score)
            in js_sub score
                 (Fin (real_of_int (max 0 (int (length hayTokens) - int (length tokens))) * 0.25))))"

section \<open>Rendering a section\<close>

text \<open>A row of the data set, and the index prepared from it for a sheet.\<close>

record dataset_row =
  ds_device :: jsstring
  ds_display :: jsstring
  ds_price :: jsnum

definition prepare_row :: "jsstring \<Rightarrow> dataset_row \<Rightarrow> row" where
  "prepare_row sheet r =
     \<lparr>device = ds_device r, price_of = ds_price r,
      search = buildSearchBlob (if ds_display r \<noteq> [] then ds_display r else ds_device r) sheet\<rparr>"







subsection \<open>The Levenshtein distance\<close>

text \<open>
  The distance by its recurrence: against the empty string it is the length of the other
  string; otherwise it is the least of deleting the first unit, inserting the first unit
  of the other string, and keeping or substituting the first unit.
\<close>

fun edit_distance :: "'a list \<Rightarrow> 'a list \<Rightarrow> nat" where
  "edit_distance [] ys = length ys"
| "edit_distance xs [] = length xs"
| "edit_distance (x # xs) (y # ys) =
     min (min (edit_distance xs (y # ys) + 1) (edit_distance (x # xs) ys + 1))
         (edit_distance xs ys + (if x = y then 0 else 1))"



section \<open>Query variants\<close>














subsection \<open>The filter and the row list in the words of their description\<close>





subsection \<open>Auxiliary notions for the ranking example\<close>

text \<open>What \<open>trim\<close> does at the end of a string.\<close>

definition rtrim :: "jsstring \<Rightarrow> jsstring" where
  "rtrim s = rev (dropWhile is_space (rev s))"

text \<open>
  The parts of \<open>rankScore\<close>: the score before the numeric step, the numeric step, and
  the penalty for a long haystack.
\<close>

definition base_score :: "jsstring \<Rightarrow> jsstring \<Rightarrow> jsstring list \<Rightarrow> jsstring list \<Rightarrow> real" where
  "base_score hay nq tokens hayTokens =
     (if str_includes hay nq then 40 else 0)
     + (\<Sum>phrase\<leftarrow>phrases tokens. if str_includes hay phrase then 12 else 0)
     + (\<Sum>tok\<leftarrow>tokens. token_score hayTokens tok)"

definition proximity :: "real \<Rightarrow> real list \<Rightarrow> real list \<Rightarrow> jsnum" where
  "proximity score qNums hNums =
     (if qNums \<noteq> [] \<and> hNums \<noteq> [] then
        (let bd = bestDelta qNums hNums
         in if bd = Fin 0 then Fin (score + 25)
            else if js_le bd (Fin 1) then Fin (score + 10)
            else if js_le bd (Fin 2) then Fin (score + 5)
            else js_sub (Fin score) bd)
      else Fin score)"

definition length_penalty :: "jsstring list \<Rightarrow> jsstring list \<Rightarrow> real" where
  "length_penalty hayTokens tokens =
     real_of_int (max 0 (int (length hayTokens) - int (length tokens))) * 0.25"

text \<open>A smallest difference: still infinite, or a finite number that is not negative.\<close>

definition delta_ok :: "jsnum \<Rightarrow> bool" where
  "delta_ok bd = (bd = PInf \<or> (\<exists>x\<ge>0. bd = Fin x))"

text \<open>The query and the two items of the ranking example.\<close>

definition query_15_pro_256 :: jsstring where
  "query_15_pro_256 = js ''15 pro 256''"

definition blob_15 :: jsstring where
  "blob_15 = js ''iphone 15 pro 256gb 15 pro 256gb''"

definition blob_14 :: jsstring where
  "blob_14 = js ''iphone 14 pro 256gb 14 pro 256gb''"

definition iphone_15_row :: "jsstring \<Rightarrow> row" where
  "iphone_15_row sheet =
     prepare_row sheet
       \<lparr>ds_device = js ''iPhone 15 Pro 256GB'', ds_display = js ''iPhone 15 Pro 256GB'',
        ds_price = Fin 700\<rparr>"

definition iphone_14_row :: "jsstring \<Rightarrow> row" where
  "iphone_14_row sheet =
     prepare_row sheet
       \<lparr>ds_device = js ''iPhone 14 Pro 256GB'', ds_display = js ''iPhone 14 Pro 256GB'',
        ds_price = Fin 500\<rparr>"

section \<open>Properties of the rounding rule\<close>

lemma js_rem_pos: "0 < a \<Longrightarrow> 0 < b \<Longrightarrow> js_rem a b = a mod b"
  by (simp add: js_rem_def)

lemma last_two_digits: "340 < p \<Longrightarrow> js_rem (js_rem p 100 + 100) 100 = p mod 100"
proof -
  assume p: "340 < p"
  then have "js_rem p 100 = p mod 100" by (simp add: js_rem_pos)
  moreover have "0 < p mod 100 + 100" by (smt (verit) pos_mod_sign)
  ultimately show ?thesis by (simp add: js_rem_pos)
qed

lemma roundPrice_Fin:
  "roundPrice (Fin x) = Amount (avoid_10_90 (Math_round (x / 10) * 10))"
  by (simp add: roundPrice_def avoid_10_90_def Let_def last_two_digits)



lemma rounds_half_up_to10_nearest:
  assumes "rounds_half_up_to10 x r" and "10 dvd k"
  shows "\<bar>x - of_int r\<bar> \<le> \<bar>x - of_int k\<bar>"
    and "\<bar>x - of_int k\<bar> = \<bar>x - of_int r\<bar> \<Longrightarrow> k \<le> r"
proof -
  from assms obtain a b where r: "r = 10 * a" and k: "k = 10 * b"
    by (auto simp: rounds_half_up_to10_def dvd_def)
  from assms have bnd: "of_int r - 5 \<le> x" "x < of_int r + 5"
    by (simp_all add: rounds_half_up_to10_def)
  have "k = r \<or> k \<le> r - 10 \<or> r + 10 \<le> k" using r k by presburger
  then consider "k = r" | "k \<le> r - 10" | "r + 10 \<le> k" by blast
  then show "\<bar>x - of_int r\<bar> \<le> \<bar>x - of_int k\<bar>"
  proof cases
    case 1 then show ?thesis by simp
  next
    case 2
    then have "(of_int k :: real) \<le> of_int r - 10" by linarith
    with bnd show ?thesis by linarith
  next
    case 3
    then have "(of_int r :: real) + 10 \<le> of_int k" by linarith
    with bnd show ?thesis by linarith
  qed
  show "k \<le> r" if eq: "\<bar>x - of_int k\<bar> = \<bar>x - of_int r\<bar>"
  proof (rule ccontr)
    assume "\<not> k \<le> r"
    with r k have "r + 10 \<le> k" by presburger
    then have "(of_int r :: real) + 10 \<le> of_int k" by linarith
    with bnd eq show False by linarith
  qed
qed





section \<open>Properties of the pricing engine\<close>

lemma in_bucket_iff: "in_bucket base b \<longleftrightarrow> js_le (lo b) base \<and> js_le base (hi b)"
  by (simp add: in_bucket_def js_ge_def)

lemma scan_buckets_find:
  "scan_buckets pg s base bs =
     (case resolveBucket base bs of
        None \<Rightarrow> roundPrice base
      | Some b \<Rightarrow> roundPrice (discounted pg s base b))"
  by (induction bs) (simp_all add: resolveBucket_def in_bucket_iff)

lemma resolveBucket_Some_iff:
  "resolveBucket price bs = Some b \<longleftrightarrow>
     (\<exists>i<length bs. bs ! i = b \<and> js_le (lo b) price \<and> js_le price (hi b) \<and>
        (\<forall>j<i. \<not> (js_le (lo (bs ! j)) price \<and> js_le price (hi (bs ! j)))))"
  unfolding resolveBucket_def find_Some_iff by blast

lemma resolveBucket_None_iff:
  "resolveBucket price bs = None \<longleftrightarrow>
     (\<forall>b\<in>set bs. \<not> (js_le (lo b) price \<and> js_le price (hi b)))"
  unfolding resolveBucket_def find_None_iff by blast

lemma two_bucket_page_buckets:
  "activeBuckets two_bucket_page =
     [\<lparr>label = js ''A'', lo = Fin 1, hi = Fin 100\<rparr>,
      \<lparr>label = js ''B'', lo = Fin 101, hi = Fin 220\<rparr>]"
  by (simp add: activeBuckets_def two_bucket_page_def two_buckets_def)

lemma two_bucket_rule_A: "resolveRule two_bucket_page (js ''A'') s = \<lparr>pct = Some (Fin 50), flat = None\<rparr>"
  by (simp add: resolveRule_def two_bucket_page_def js_def Let_def get_prop_def)
lemma two_bucket_rule_B: "resolveRule two_bucket_page (js ''B'') s = \<lparr>pct = Some (Fin 10), flat = None\<rparr>"
  by (simp add: resolveRule_def two_bucket_page_def js_def Let_def get_prop_def)

lemma resolveBucket_two_buckets:
  "map_option label (resolveBucket (Fin 50) (activeBuckets two_bucket_page)) = Some (js ''A'')"
  "map_option label (resolveBucket (Fin 150) (activeBuckets two_bucket_page)) = Some (js ''B'')"
  "resolveBucket (Fin 500) (activeBuckets two_bucket_page) = None"
  by (simp_all add: two_bucket_page_buckets resolveBucket_def)

lemma finalPriceFor_two_buckets:
  "finalPriceFor two_bucket_page s (Fin 50) = Amount 30"
  "finalPriceFor two_bucket_page s (Fin 150) = Amount 140"
  "finalPriceFor two_bucket_page s (Fin 500) = Amount 500"
  by (simp_all add: finalPriceFor_def two_bucket_page_buckets in_bucket_def js_ge_def discounted_def two_bucket_rule_A two_bucket_rule_B
      roundPrice_Fin Math_round_def avoid_10_90_def)

text \<open>
  Claim C2. For every price and every ordered list of buckets, \<open>finalPriceFor\<close> uses the
  first bucket in listed order whose inclusive range \<open>[low, high]\<close> contains the base
  price, also when buckets overlap; when no bucket contains the base price, the base price
  goes to \<open>roundPrice\<close> as it is, with no discount. With the buckets
  \<open>[("A",1,100),("B",101,220)]\<close>, the price 50 resolves to \<open>A\<close>, 150 to \<open>B\<close> and 500 to
  no bucket.
\<close>

theorem finalPriceFor_first_bucket:
  "(\<forall>b. resolveBucket base (activeBuckets pg) = Some b \<longrightarrow>
        finalPriceFor pg s base = roundPrice (discounted pg s base b)) \<and>
   (resolveBucket base (activeBuckets pg) = None \<longrightarrow> finalPriceFor pg s base = roundPrice base) \<and>
   (\<forall>b. resolveBucket base bs = Some b \<longleftrightarrow>
      (\<exists>i<length bs. bs ! i = b \<and> js_le (lo b) base \<and> js_le base (hi b) \<and>
         (\<forall>j<i. \<not> (js_le (lo (bs ! j)) base \<and> js_le base (hi (bs ! j)))))) \<and>
   (resolveBucket base bs = None \<longleftrightarrow>
      (\<forall>b\<in>set bs. \<not> (js_le (lo b) base \<and> js_le base (hi b)))) \<and>
   map_option label (resolveBucket (Fin 50) (activeBuckets two_bucket_page)) = Some (js ''A'') \<and>
   map_option label (resolveBucket (Fin 150) (activeBuckets two_bucket_page)) = Some (js ''B'') \<and>
   resolveBucket (Fin 500) (activeBuckets two_bucket_page) = None \<and>
   finalPriceFor two_bucket_page s (Fin 50) = Amount 30 \<and>
   finalPriceFor two_bucket_page s (Fin 150) = Amount 140 \<and>
   finalPriceFor two_bucket_page s (Fin 500) = Amount 500"
proof -
  have "\<forall>b. resolveBucket base (activeBuckets pg) = Some b \<longrightarrow>
          finalPriceFor pg s base = roundPrice (discounted pg s base b)"
    by (simp add: finalPriceFor_def scan_buckets_find)
  moreover have "resolveBucket base (activeBuckets pg) = None \<longrightarrow>
          finalPriceFor pg s base = roundPrice base"
    by (simp add: finalPriceFor_def scan_buckets_find)
  ultimately show ?thesis
    using resolveBucket_Some_iff [of base bs] resolveBucket_None_iff [of base bs]
      resolveBucket_two_buckets finalPriceFor_two_buckets [of s]
    by blast
qed

lemma overlap_buckets:
  "activeBuckets overlap_page =
     [\<lparr>label = js ''wide'', lo = Fin 1, hi = PInf\<rparr>,
      \<lparr>label = js ''narrow'', lo = Fin 100, hi = Fin 200\<rparr>]"
  by (simp add: activeBuckets_def overlap_page_def)

lemma overlap_rule:
  "resolveRule overlap_page (js ''wide'') s = \<lparr>pct = Some (Fin 50), flat = None\<rparr>"
  by (simp add: resolveRule_def overlap_page_def js_def Let_def get_prop_def)

theorem finalPriceFor_first_bucket_witness:
  "resolveBucket (Fin 150) (activeBuckets overlap_page)
     = Some \<lparr>label = js ''wide'', lo = Fin 1, hi = PInf\<rparr> \<and>
   finalPriceFor overlap_page (js ''Phones'') (Fin 150) = Amount 80 \<and>
   resolveBucket (Fin 0) (activeBuckets overlap_page) = None \<and>
   finalPriceFor overlap_page (js ''Phones'') (Fin 0) = Amount 0"
proof -
  have a: "resolveBucket (Fin 150) (activeBuckets overlap_page)
     = Some \<lparr>label = js ''wide'', lo = Fin 1, hi = PInf\<rparr>"
    by (simp add: overlap_buckets resolveBucket_def)
  have b: "resolveBucket (Fin 0) (activeBuckets overlap_page) = None"
    by (simp add: overlap_buckets resolveBucket_def)
  have d: "roundPrice (discounted overlap_page (js ''Phones'') (Fin 150)
             \<lparr>label = js ''wide'', lo = Fin 1, hi = PInf\<rparr>) = Amount 80"
    by (simp add: discounted_def overlap_rule roundPrice_Fin Math_round_def avoid_10_90_def)
  have z: "roundPrice (Fin 0) = Amount 0"
    by (simp add: roundPrice_Fin Math_round_def avoid_10_90_def)
  from finalPriceFor_first_bucket [of "Fin 150" overlap_page "js ''Phones''"] a d
  have "finalPriceFor overlap_page (js ''Phones'') (Fin 150) = Amount 80" by simp
  moreover from finalPriceFor_first_bucket [of "Fin 0" overlap_page "js ''Phones''"] b z
  have "finalPriceFor overlap_page (js ''Phones'') (Fin 0) = Amount 0" by simp
  ultimately show ?thesis using a b by simp
qed









lemma avoid_10_90_nonneg: "0 \<le> r \<Longrightarrow> 0 \<le> avoid_10_90 r"
  by (simp add: avoid_10_90_def)

lemma roundPrice_nonneg: "\<not> js_lt n (Fin 0) \<Longrightarrow> \<not> negative_price (roundPrice n)"
proof (cases n)
  case (Fin x)
  assume "\<not> js_lt n (Fin 0)"
  with Fin have "0 \<le> x" by simp
  then have "0 \<le> Math_round (x / 10)" by (simp add: Math_round_def)
  then have "0 \<le> avoid_10_90 (Math_round (x / 10) * 10)" by (intro avoid_10_90_nonneg) simp
  with Fin show ?thesis by (simp add: roundPrice_Fin)
qed (simp_all add: roundPrice_def)

lemma discounted_clamped: "\<not> js_lt (discounted pg s base b) (Fin 0)"
proof -
  have "\<not> js_lt (if js_lt p (Fin 0) then Fin 0 else p) (Fin 0)" for p by simp
  then show ?thesis unfolding discounted_def Let_def by blast
qed

lemma scan_buckets_nonneg:
  "\<not> js_lt base (Fin 0) \<Longrightarrow> \<not> negative_price (scan_buckets pg s base bs)"
  by (induction bs) (simp_all add: roundPrice_nonneg discounted_clamped)

lemma isFinite_iff: "isFinite n \<longleftrightarrow> (\<exists>x. n = Fin x)"
  by (cases n) simp_all

lemma discounted_finite:
  assumes "finite_rule pg s b"
  shows "\<exists>y\<ge>0. discounted pg s (Fin x) b = Fin y"
proof -
  from assms obtain a c where
    "or_zero (pct (resolveRule pg (label b) s)) = Fin a"
    "or_zero (flat (resolveRule pg (label b) s)) = Fin c"
    by (auto simp: finite_rule_def Let_def isFinite_iff)
  then have "discounted pg s (Fin x) b = Fin (max 0 (x * (1 - a / 100) - c))"
    by (simp add: discounted_def Let_def max_def)
  then show ?thesis by auto
qed

lemma roundPrice_Fin_nonneg: "0 \<le> y \<Longrightarrow> \<exists>p\<ge>0. roundPrice (Fin y) = Amount p"
proof -
  assume "0 \<le> y"
  then have "0 \<le> Math_round (y / 10)" by (simp add: Math_round_def)
  then have "0 \<le> avoid_10_90 (Math_round (y / 10) * 10)" by (intro avoid_10_90_nonneg) simp
  then show ?thesis by (simp add: roundPrice_Fin)
qed

lemma scan_buckets_finite:
  "0 \<le> x \<Longrightarrow> \<forall>b\<in>set bs. finite_rule pg s b \<Longrightarrow> \<exists>p\<ge>0. scan_buckets pg s (Fin x) bs = Amount p"
proof (induction bs)
  case Nil
  then show ?case by (simp add: roundPrice_Fin_nonneg)
next
  case (Cons b bs)
  show ?case
  proof (cases "in_bucket (Fin x) b")
    case True
    from Cons.prems have "finite_rule pg s b" by simp
    from discounted_finite [OF this, of x] obtain y
      where "0 \<le> y" "discounted pg s (Fin x) b = Fin y" by blast
    with True roundPrice_Fin_nonneg [of y] show ?thesis by simp
  next
    case False
    with Cons show ?thesis by simp
  qed
qed

text \<open>
  Claim C4. For every finite base price above 0 and every configuration, the price that
  \<open>finalPriceFor\<close> computes is never negative: the discounted value is clamped to at
  least 0 before it is rounded, and rounding keeps a value that is not negative so. When
  the rules of all buckets are finite, the price is a number, at least 0.
\<close>

theorem finalPriceFor_never_negative:
  "(0 < x \<longrightarrow> \<not> negative_price (finalPriceFor pg s (Fin x))) \<and>
   (0 < x \<and> (\<forall>b\<in>set (activeBuckets pg). finite_rule pg s b) \<longrightarrow>
      (\<exists>p\<ge>0. finalPriceFor pg s (Fin x) = Amount p)) \<and>
   \<not> js_lt (discounted pg s base b) (Fin 0) \<and>
   (\<not> js_lt n (Fin 0) \<longrightarrow> \<not> negative_price (roundPrice n))"
  using scan_buckets_finite [of x "activeBuckets pg" pg s]
  by (simp add: finalPriceFor_def scan_buckets_nonneg discounted_clamped roundPrice_nonneg)

lemma steep_buckets:
  "activeBuckets steep_page =
     map (\<lambda>(l, low, high). \<lparr>label = l, lo = low, hi = high\<rparr>) generator_buckets"
  by (simp add: activeBuckets_def steep_page_def generator_buckets_def)

lemma steep_rule:
  "resolveRule steep_page (js ''1-100'') s = \<lparr>pct = Some (Fin 150), flat = Some (Fin 20)\<rparr>"
  by (simp add: resolveRule_def steep_page_def js_def Let_def get_prop_def)

lemma steep_price: "finalPriceFor steep_page (js ''Phones'') (Fin 50) = Amount 0"
  by (simp add: finalPriceFor_def steep_buckets generator_buckets_def in_bucket_def js_ge_def
      discounted_def steep_rule roundPrice_Fin Math_round_def avoid_10_90_def)

lemma steep_finite: "\<forall>b\<in>set (activeBuckets steep_page). finite_rule steep_page (js ''Phones'') b"
  by (simp add: steep_buckets generator_buckets_def finite_rule_def Let_def resolveRule_def
      steep_page_def js_def get_prop_def generator_rules_def)

theorem finalPriceFor_never_negative_witness:
  "(0::real) < 50 \<and> finalPriceFor steep_page (js ''Phones'') (Fin 50) = Amount 0 \<and>
   list_all (finite_rule steep_page (js ''Phones'')) (activeBuckets steep_page) \<and>
   \<not> negative_price (finalPriceFor steep_page (js ''Phones'') (Fin 50)) \<and>
   \<not> js_lt (Fin 0) (Fin 0) \<and> \<not> negative_price (roundPrice (Fin 0))"
  using finalPriceFor_never_negative [of 50 steep_page "js ''Phones''" _ _ "Fin 0"] steep_price
    steep_finite
  by (simp add: list_all_iff)

section \<open>Properties of the fuzzy matcher\<close>

lemma edit_distance_Nil2 [simp]: "edit_distance xs [] = length xs"
  by (cases xs) simp_all



















lemma startsWith_iff: "startsWith s p \<longleftrightarrow> (\<exists>ss. s = p @ ss)"
  by (induction s p rule: startsWith.induct) auto

lemma str_includes_iff: "str_includes h t \<longleftrightarrow> (\<exists>ps ss. h = ps @ t @ ss)"
proof (induction h)
  case Nil
  show ?case by auto
next
  case (Cons c cs)
  show ?case
  proof
    assume "str_includes (c # cs) t"
    then consider "startsWith (c # cs) t" | "str_includes cs t" by auto
    then show "\<exists>ps ss. c # cs = ps @ t @ ss"
    proof cases
      case 1
      then obtain ss where "c # cs = t @ ss" by (auto simp: startsWith_iff)
      then have "c # cs = [] @ t @ ss" by simp
      then show ?thesis by blast
    next
      case 2
      then obtain ps ss where "cs = ps @ t @ ss" using Cons.IH by blast
      then have "c # cs = (c # ps) @ t @ ss" by simp
      then show ?thesis by blast
    qed
  next
    assume "\<exists>ps ss. c # cs = ps @ t @ ss"
    then obtain ps ss where eq: "c # cs = ps @ t @ ss" by blast
    show "str_includes (c # cs) t"
    proof (cases ps)
      case Nil
      with eq have "startsWith (c # cs) t" unfolding startsWith_iff by auto
      then show ?thesis by simp
    next
      case (Cons p ps')
      with eq have "cs = ps' @ t @ ss" by simp
      then have "str_includes cs t" using Cons.IH by blast
      then show ?thesis by simp
    qed
  qed
qed







section \<open>Properties of the filter and of the row list\<close>












section \<open>Properties of the ranking\<close>

lemma trim_append:
  assumes "L \<noteq> []" "\<not> is_space (hd L)" "\<not> is_space (last L)"
  shows "trim (L @ X) = L @ rtrim X"
proof -
  from assms obtain c L' where L: "L = c # L'" by (cases L) auto
  with assms have c: "\<not> is_space c" by simp
  have 1: "dropWhile is_space (L @ X) = L @ X" using L c by simp
  have "rev L \<noteq> []" "\<not> is_space (hd (rev L))" using assms by (simp_all add: hd_rev)
  then have 2: "dropWhile is_space (rev L) = rev L" by (cases "rev L") auto
  have "dropWhile is_space (rev X @ rev L) = dropWhile is_space (rev X) @ rev L"
  proof (cases "\<forall>x\<in>set (rev X). is_space x")
    case True
    then show ?thesis using 2 by (simp add: dropWhile_append)
  next
    case False
    then show ?thesis by (auto simp: dropWhile_append)
  qed
  then show ?thesis by (simp add: trim_def 1 rtrim_def)
qed

lemma rtrim_prefix: "\<exists>Z. s = rtrim s @ Z"
proof -
  have "rev (dropWhile is_space (rev s)) @ rev (takeWhile is_space (rev s))
      = rev (takeWhile is_space (rev s) @ dropWhile is_space (rev s))"
    by (simp only: rev_append)
  also have "\<dots> = s" by (simp only: takeWhile_dropWhile_id rev_rev_ident)
  finally have "s = rtrim s @ rev (takeWhile is_space (rev s))" by (simp add: rtrim_def)
  then show ?thesis ..
qed

lemma rtrim_Cons:
  "rtrim (c # S) = [] \<or> (\<exists>T' Z. rtrim (c # S) = c # T' \<and> S = T' @ Z)"
proof -
  obtain Z where Z: "c # S = rtrim (c # S) @ Z" using rtrim_prefix by blast
  show ?thesis
  proof (cases "rtrim (c # S)")
    case Nil
    then show ?thesis by simp
  next
    case (Cons d T')
    with Z have "c = d" "S = T' @ Z" by simp_all
    with Cons show ?thesis by blast
  qed
qed

lemma split_sp_not_Nil: "split_sp s \<noteq> []"
  by (induction s) (auto split: list.splits)

lemma split_sp_append_space: "split_sp (xs @ 32 # ys) = split_sp xs @ split_sp ys"
proof (induction xs)
  case Nil
  show ?case by simp
next
  case (Cons c xs)
  obtain w ws where w: "split_sp xs = w # ws" using split_sp_not_Nil [of xs] by (cases "split_sp xs") auto
  show ?case using Cons w by simp
qed

lemma tokens_of_append_space: "tokens_of (xs @ 32 # ys) = tokens_of xs @ tokens_of ys"
  by (simp add: tokens_of_def split_sp_append_space)

lemma tokens_of_Nil: "tokens_of [] = []"
  by (simp add: tokens_of_def)

lemma str_includes_append: "str_includes h t \<Longrightarrow> str_includes (h @ r) t"
  unfolding str_includes_iff by (metis append.assoc)

lemma best_step_max: "0 \<le> b \<Longrightarrow> best_step tok b h = max b (best_step tok 0 h)"
  by (simp add: best_step_def)

lemma best_step_bounds: "0 \<le> best_step tok 0 h" "best_step tok 0 h \<le> 10"
  by (simp_all add: best_step_def)

lemma foldl_best_step:
  "0 \<le> b \<Longrightarrow> foldl (best_step tok) b hs = max b (foldl (best_step tok) 0 hs)"
proof (induction hs arbitrary: b)
  case Nil
  then show ?case by simp
next
  case (Cons h hs)
  have b': "0 \<le> best_step tok b h"
    using best_step_max [OF Cons.prems, of tok h] best_step_bounds(1) [of tok h] by simp
  have "foldl (best_step tok) b (h # hs) = max (best_step tok b h) (foldl (best_step tok) 0 hs)"
    using Cons.IH [OF b'] by simp
  also have "\<dots> = max b (max (best_step tok 0 h) (foldl (best_step tok) 0 hs))"
    using best_step_max [OF Cons.prems, of tok h] by (simp add: max.assoc)
  also have "max (best_step tok 0 h) (foldl (best_step tok) 0 hs) = foldl (best_step tok) 0 (h # hs)"
    using Cons.IH [OF best_step_bounds(1) [of tok h]] by simp
  finally show ?case .
qed

lemma token_score_bounds: "0 \<le> token_score hs tok \<and> token_score hs tok \<le> 10"
proof (induction hs rule: rev_induct)
  case Nil
  show ?case by (simp add: token_score_def)
next
  case (snoc h hs)
  then have "0 \<le> foldl (best_step tok) 0 hs" by (simp add: token_score_def)
  from best_step_max [OF this, of tok h]
  have "token_score (hs @ [h]) tok = max (token_score hs tok) (best_step tok 0 h)"
    unfolding token_score_def by simp
  with snoc best_step_bounds [of tok h] show ?case by simp
qed

lemma token_score_append:
  "token_score (A @ B) tok = max (token_score A tok) (token_score B tok)"
  using token_score_bounds [of A tok] unfolding token_score_def foldl_append
  by (intro foldl_best_step) simp

lemma extractNums_append: "extractNums (A @ B) = extractNums A @ extractNums B"
  by (simp add: extractNums_def)

lemma rankScore_parts:
  "normText q \<noteq> [] \<Longrightarrow>
   rankScore r q =
     js_sub (proximity (base_score (search r) (normText q) (tokens_of (normText q))
                          (tokens_of (search r)))
                (extractNums (tokens_of (normText q))) (extractNums (tokens_of (search r))))
       (Fin (length_penalty (tokens_of (search r)) (tokens_of (normText q))))"
  by (simp add: rankScore_def Let_def proximity_def base_score_def length_penalty_def)

lemma closer_zero: "closer qn (Fin 0) hn = Fin 0"
  by (simp add: closer_def)

lemma inner_zero: "foldl (closer qn) (Fin 0) hs = Fin 0"
  by (induction hs) (simp_all add: closer_zero)

lemma outer_zero: "foldl (\<lambda>bd qn. foldl (closer qn) bd hs) (Fin 0) qs = Fin 0"
  by (induction qs) (simp_all add: inner_zero)

lemma bestDelta_same_head: "bestDelta (x # qs) (x # hs) = Fin 0"
proof -
  have "foldl (closer x) PInf (x # hs) = Fin 0" by (simp add: closer_def inner_zero)
  then show ?thesis
    unfolding bestDelta_def foldl_Cons [of "\<lambda>bd qn. foldl (closer qn) bd (x # hs)"]
    by (simp only: outer_zero)
qed

lemma closer_delta_ok: "delta_ok bd \<Longrightarrow> delta_ok (closer qn bd hn)"
  by (auto simp: delta_ok_def closer_def Let_def)

lemma inner_delta_ok: "delta_ok bd \<Longrightarrow> delta_ok (foldl (closer qn) bd hs)"
  by (induction hs arbitrary: bd) (simp_all add: closer_delta_ok)

lemma outer_delta_ok:
  "delta_ok bd \<Longrightarrow> delta_ok (foldl (\<lambda>bd qn. foldl (closer qn) bd hs) bd qs)"
  by (induction qs arbitrary: bd) (simp_all add: inner_delta_ok)

lemma bestDelta_delta_ok: "delta_ok (bestDelta qs hs)"
  unfolding bestDelta_def by (rule outer_delta_ok) (simp add: delta_ok_def)

lemma proximity_same_head: "proximity s (x # qs) (x # hs) = Fin (s + 25)"
  by (simp add: proximity_def bestDelta_same_head)

lemma proximity_upper:
  "proximity s qs hs = NInf \<or> (\<exists>y\<le>s + 25. proximity s qs hs = Fin y)"
proof (cases "qs \<noteq> [] \<and> hs \<noteq> []")
  case False
  then show ?thesis by (auto simp: proximity_def)
next
  case True
  from bestDelta_delta_ok [of qs hs] consider "bestDelta qs hs = PInf"
    | x where "0 \<le> x" "bestDelta qs hs = Fin x"
    by (auto simp: delta_ok_def)
  then show ?thesis
  proof cases
    case 1
    with True show ?thesis by (simp add: proximity_def)
  next
    case 2
    with True show ?thesis by (auto simp: proximity_def Let_def)
  qed
qed

lemma query_norm: "normText query_15_pro_256 = query_15_pro_256"
  unfolding query_15_pro_256_def by code_simp

lemma query_tokens: "tokens_of query_15_pro_256 = [js ''15'', js ''pro'', js ''256'']"
  unfolding query_15_pro_256_def by code_simp

lemma query_nums: "extractNums [js ''15'', js ''pro'', js ''256''] = [15, 256]"
  by code_simp

lemma query_phrases:
  "phrases [js ''15'', js ''pro'', js ''256''] = [js ''15 pro'', js ''pro 256'']"
  by code_simp

lemma name_15:
  "normText (js ''iPhone 15 Pro 256GB'') = js ''iphone 15 pro 256gb''"
  "trim (squeeze is_space False (replace_all match_brand (js ''iphone 15 pro 256gb'')))
     = js ''15 pro 256gb''"
  by code_simp+

lemma name_14:
  "normText (js ''iPhone 14 Pro 256GB'') = js ''iphone 14 pro 256gb''"
  "trim (squeeze is_space False (replace_all match_brand (js ''iphone 14 pro 256gb'')))
     = js ''14 pro 256gb''"
  by code_simp+

lemma blob_ends:
  "blob_15 \<noteq> []" "\<not> is_space (hd blob_15)" "\<not> is_space (last blob_15)"
  "blob_14 \<noteq> []" "\<not> is_space (hd blob_14)" "\<not> is_space (last blob_14)"
  unfolding blob_15_def blob_14_def by code_simp+

lemma blob_concat:
  "js ''iphone 15 pro 256gb'' @ [32] @ js ''15 pro 256gb'' @ X = blob_15 @ X"
  "js ''iphone 14 pro 256gb'' @ [32] @ js ''14 pro 256gb'' @ X = blob_14 @ X"
  by (simp_all add: js_def blob_15_def blob_14_def)

lemma blobs_shape:
  "\<exists>T. buildSearchBlob (js ''iPhone 15 Pro 256GB'') sheet = blob_15 @ T \<and>
       buildSearchBlob (js ''iPhone 14 Pro 256GB'') sheet = blob_14 @ T \<and>
       (T = [] \<or> (\<exists>T' Z. T = 32 # T' \<and> normText sheet = T' @ Z))"
proof -
  define X where "X = (if sheet \<noteq> [] then 32 # normText sheet else [])"
  have 15: "buildSearchBlob (js ''iPhone 15 Pro 256GB'') sheet = blob_15 @ rtrim X"
    unfolding buildSearchBlob_def Let_def name_15 X_def [symmetric] blob_concat
    by (rule trim_append [OF blob_ends(1,2,3)])
  have 14: "buildSearchBlob (js ''iPhone 14 Pro 256GB'') sheet = blob_14 @ rtrim X"
    unfolding buildSearchBlob_def Let_def name_14 X_def [symmetric] blob_concat
    by (rule trim_append [OF blob_ends(4,5,6)])
  have "rtrim X = [] \<or> (\<exists>T' Z. rtrim X = 32 # T' \<and> normText sheet = T' @ Z)"
  proof (cases "sheet = []")
    case True
    then show ?thesis by (simp add: X_def rtrim_def)
  next
    case False
    then show ?thesis using rtrim_Cons [of 32 "normText sheet"] by (simp add: X_def)
  qed
  with 15 14 show ?thesis by blast
qed

lemma blob_tokens:
  "tokens_of blob_15 =
     [js ''iphone'', js ''15'', js ''pro'', js ''256gb'', js ''15'', js ''pro'', js ''256gb'']"
  "tokens_of blob_14 =
     [js ''iphone'', js ''14'', js ''pro'', js ''256gb'', js ''14'', js ''pro'', js ''256gb'']"
  unfolding blob_15_def blob_14_def by code_simp+

lemma blob_token_scores:
  "token_score (tokens_of blob_15) (js ''15'') = 10"
  "token_score (tokens_of blob_15) (js ''pro'') = 10"
  "token_score (tokens_of blob_15) (js ''256'') = 6"
  "token_score (tokens_of blob_14) (js ''15'') = 3"
  "token_score (tokens_of blob_14) (js ''pro'') = 10"
  "token_score (tokens_of blob_14) (js ''256'') = 6"
  unfolding blob_15_def blob_14_def by code_simp+

lemma blob_nums:
  "extractNums (tokens_of blob_15) = [15, 15]"
  "extractNums (tokens_of blob_14) = [14, 14]"
  unfolding blob_15_def blob_14_def by code_simp+

lemma blob_15_includes:
  "str_includes blob_15 query_15_pro_256"
  "str_includes blob_15 (js ''15 pro'')"
  "str_includes blob_15 (js ''pro 256'')"
  "str_includes blob_14 (js ''pro 256'')"
  unfolding blob_15_def blob_14_def query_15_pro_256_def by code_simp+

lemma blob_14_excludes:
  "str_includes (blob_14 @ T) query_15_pro_256 \<longleftrightarrow> str_includes T query_15_pro_256"
  by (simp add: blob_14_def query_15_pro_256_def js_def)

lemma tokens_of_blob_append:
  assumes "T = [] \<or> (\<exists>T'. T = 32 # T')"
  shows "tokens_of (L @ T) = tokens_of L @ tokens_of T"
proof -
  from assms consider "T = []" | T' where "T = 32 # T'" by blast
  then show ?thesis
  proof cases
    case 1
    then show ?thesis by (simp add: tokens_of_Nil)
  next
    case 2
    have "tokens_of (32 # T') = tokens_of T'" by (simp add: tokens_of_def)
    with 2 show ?thesis by (simp add: tokens_of_append_space)
  qed
qed

lemma scores_shape:
  assumes s15: "search r15 = blob_15 @ T"
      and s14: "search r14 = blob_14 @ T"
      and T: "T = [] \<or> (\<exists>T'. T = 32 # T')"
  shows "\<exists>b p y. rankScore r15 query_15_pro_256 = Fin (b + 40 + 25 - p) \<and>
           (rankScore r14 query_15_pro_256 = NInf \<or>
            rankScore r14 query_15_pro_256 = Fin (y - p) \<and>
            y \<le> b + (if str_includes T query_15_pro_256 then 40 else 0) + 25)"
proof -
  let ?q = query_15_pro_256
  let ?toks = "[js ''15'', js ''pro'', js ''256'']"
  define TS where "TS = tokens_of T"
  define w where "w = token_score TS (js ''256'')"
  define b where "b = 24 + 10 + 10 + max 6 w"
  define p where "p = length_penalty (tokens_of blob_15 @ TS) ?toks"
  have qne: "normText ?q \<noteq> []"
    unfolding query_norm by (simp add: query_15_pro_256_def js_def)
  have tk: "tokens_of (L @ T) = tokens_of L @ TS" for L
    unfolding TS_def by (rule tokens_of_blob_append [OF T])
  have t15: "tokens_of (search r15) = tokens_of blob_15 @ TS"
    unfolding s15 by (rule tk)
  have t14: "tokens_of (search r14) = tokens_of blob_14 @ TS"
    unfolding s14 by (rule tk)
  have p14: "length_penalty (tokens_of blob_14 @ TS) ?toks = p"
    by (simp add: p_def length_penalty_def blob_tokens)
  note tb = token_score_bounds [of TS]
  have base15: "base_score (search r15) ?q ?toks (tokens_of blob_15 @ TS) = b + 40"
    unfolding base_score_def s15 query_phrases
    using tb [of "js ''15''"] tb [of "js ''pro''"]
    by (simp add: str_includes_append blob_15_includes token_score_append blob_token_scores
        b_def w_def)
  have base14: "base_score (search r14) ?q ?toks (tokens_of blob_14 @ TS)
      \<le> b + (if str_includes T ?q then 40 else 0)"
    unfolding base_score_def s14 query_phrases blob_14_excludes
    using tb [of "js ''15''"] tb [of "js ''pro''"]
    by (simp add: str_includes_append blob_15_includes token_score_append blob_token_scores
        b_def w_def)
  have r15: "rankScore r15 ?q = Fin (b + 40 + 25 - p)"
    unfolding rankScore_parts [OF qne] query_norm query_tokens query_nums t15
      extractNums_append blob_nums base15 p_def [symmetric]
    by (simp add: proximity_same_head)
  let ?b14 = "base_score (search r14) ?q ?toks (tokens_of blob_14 @ TS)"
  have r14: "rankScore r14 ?q =
      js_sub (proximity ?b14 [15, 256] ([14, 14] @ extractNums TS)) (Fin p)"
    unfolding rankScore_parts [OF qne] query_norm query_tokens query_nums t14
      extractNums_append blob_nums p14 ..
  from proximity_upper [of ?b14 "[15, 256]" "[14, 14] @ extractNums TS"]
  consider "proximity ?b14 [15, 256] ([14, 14] @ extractNums TS) = NInf"
    | y where "y \<le> ?b14 + 25" "proximity ?b14 [15, 256] ([14, 14] @ extractNums TS) = Fin y"
    by blast
  then show ?thesis
  proof cases
    case 1
    with r14 have "rankScore r14 ?q = NInf" by simp
    with r15 show ?thesis by blast
  next
    case 2
    with r14 have "rankScore r14 ?q = Fin (y - p)" by simp
    moreover from 2 base14 have "y \<le> b + (if str_includes T ?q then 40 else 0) + 25"
      by linarith
    ultimately show ?thesis using r15 by blast
  qed
qed

text \<open>
  Claim C9 says that for the query \<open>15 pro 256\<close> the item \<open>iPhone 15 Pro 256GB\<close> scores
  strictly above the item \<open>iPhone 14 Pro 256GB\<close>, both scored over blobs built from name
  and sheet label. On a sheet whose label is \<open>15 Pro 256\<close> the two scores are equal.
\<close>

theorem rank_15_above_14_tie_counterexample:
  "search (iphone_15_row (js ''15 Pro 256'')) = buildSearchBlob (js ''iPhone 15 Pro 256GB'') (js ''15 Pro 256'') \<and>
   search (iphone_14_row (js ''15 Pro 256'')) = buildSearchBlob (js ''iPhone 14 Pro 256GB'') (js ''15 Pro 256'') \<and>
   \<not> js_lt (rankScore (iphone_14_row (js ''15 Pro 256'')) (js ''15 pro 256''))
           (rankScore (iphone_15_row (js ''15 Pro 256'')) (js ''15 pro 256''))"
proof -
  have "rankScore (iphone_14_row (js ''15 Pro 256'')) (js ''15 pro 256'') = Fin (469 / 4)"
    by code_simp
  moreover have "rankScore (iphone_15_row (js ''15 Pro 256'')) (js ''15 pro 256'') = Fin (469 / 4)"
    by code_simp
  ultimately show ?thesis
    by (simp add: iphone_15_row_def iphone_14_row_def prepare_row_def js_def)
qed

text \<open>
  Claim C9, amended. For the query \<open>15 pro 256\<close> and two rows of the same sheet whose
  blobs are built from the names \<open>iPhone 15 Pro 256GB\<close> and \<open>iPhone 14 Pro 256GB\<close>, the
  score of the first is never below the score of the second, and it is strictly greater
  whenever the normalized sheet label does not itself contain the text \<open>15 pro 256\<close>.
\<close>

theorem rank_15_above_14:
  assumes "search r15 = buildSearchBlob (js ''iPhone 15 Pro 256GB'') sheet"
      and "search r14 = buildSearchBlob (js ''iPhone 14 Pro 256GB'') sheet"
  shows "js_le (rankScore r14 (js ''15 pro 256'')) (rankScore r15 (js ''15 pro 256'')) \<and>
         (\<not> str_includes (normText sheet) (js ''15 pro 256'') \<longrightarrow>
            js_lt (rankScore r14 (js ''15 pro 256'')) (rankScore r15 (js ''15 pro 256'')))"
proof -
  let ?q = query_15_pro_256
  from blobs_shape [of sheet] assms obtain T
    where s15: "search r15 = blob_15 @ T" and s14: "search r14 = blob_14 @ T"
      and T: "T = [] \<or> (\<exists>T' Z. T = 32 # T' \<and> normText sheet = T' @ Z)"
    by auto
  from T have T': "T = [] \<or> (\<exists>T'. T = 32 # T')" by blast
  from scores_shape [OF s15 s14 T'] obtain b p y
    where r15: "rankScore r15 ?q = Fin (b + 40 + 25 - p)"
      and r14: "rankScore r14 ?q = NInf \<or>
            rankScore r14 ?q = Fin (y - p) \<and>
            y \<le> b + (if str_includes T ?q then 40 else 0) + 25"
    by blast
  have le: "js_le (rankScore r14 ?q) (rankScore r15 ?q)"
    using r14 r15 by (auto split: if_splits)
  have lt: "js_lt (rankScore r14 ?q) (rankScore r15 ?q)"
    if no: "\<not> str_includes (normText sheet) ?q"
  proof -
    have "\<not> str_includes T ?q"
    proof
      assume inc: "str_includes T ?q"
      with T obtain T' Z where TZ: "T = 32 # T'" "normText sheet = T' @ Z"
        by (auto simp: query_15_pro_256_def js_def)
      with inc have "str_includes T' ?q" by (simp add: query_15_pro_256_def js_def)
      then have "str_includes (T' @ Z) ?q" by (rule str_includes_append)
      with TZ no show False by simp
    qed
    with r14 r15 show ?thesis by auto
  qed
  from le lt show ?thesis unfolding query_15_pro_256_def by blast
qed

theorem rank_15_above_14_witness:
  "search (iphone_15_row (js ''Phones'')) = buildSearchBlob (js ''iPhone 15 Pro 256GB'') (js ''Phones'') \<and>
   search (iphone_14_row (js ''Phones'')) = buildSearchBlob (js ''iPhone 14 Pro 256GB'') (js ''Phones'') \<and>
   \<not> str_includes (normText (js ''Phones'')) (js ''15 pro 256'') \<and>
   rankScore (iphone_15_row (js ''Phones'')) (js ''15 pro 256'') = Fin (455 / 4) \<and>
   rankScore (iphone_14_row (js ''Phones'')) (js ''15 pro 256'') = Fin (159 / 4) \<and>
   js_lt (rankScore (iphone_14_row (js ''Phones'')) (js ''15 pro 256''))
         (rankScore (iphone_15_row (js ''Phones'')) (js ''15 pro 256''))"
proof -
  have a: "search (iphone_15_row (js ''Phones'')) = buildSearchBlob (js ''iPhone 15 Pro 256GB'') (js ''Phones'')"
    by (simp add: iphone_15_row_def prepare_row_def js_def)
  have b: "search (iphone_14_row (js ''Phones'')) = buildSearchBlob (js ''iPhone 14 Pro 256GB'') (js ''Phones'')"
    by (simp add: iphone_14_row_def prepare_row_def js_def)
  have c: "\<not> str_includes (normText (js ''Phones'')) (js ''15 pro 256'')" by code_simp
  have d: "rankScore (iphone_15_row (js ''Phones'')) (js ''15 pro 256'') = Fin (455 / 4)"
    by code_simp
  have e: "rankScore (iphone_14_row (js ''Phones'')) (js ''15 pro 256'') = Fin (159 / 4)"
    by code_simp
  from rank_15_above_14 [OF a b] c
  have "js_lt (rankScore (iphone_14_row (js ''Phones'')) (js ''15 pro 256''))
         (rankScore (iphone_15_row (js ''Phones'')) (js ''15 pro 256''))" by blast
  with a b c d e show ?thesis by blast
qed

end
